theory Spec2Isabelle
  imports
    Complex_Main
    "HOL-Library.AList"
    "HOL-Library.Char_ord"
    "HOL-Library.List_Lexorder"
    "HOL-Library.Product_Lexorder"
begin

section \<open>Data model of the commute optimizer\<close>

text \<open>
  Station and railway identifiers are Python strings. Travel times are Python floats; every
  edge weight the program produces is 2.5 or 5.0, all sums of such weights are multiples of
  one half and exact in binary floating point, so times are modelled as rationals. Stop
  counts are Python integers.
\<close>

type_synonym station = string

text \<open>
  An entry of an adjacency list, in the source a dictionary with the keys
  \<^verbatim>\<open>to_station\<close>, \<^verbatim>\<open>travel_time\<close>, \<^verbatim>\<open>railway\<close> and \<^verbatim>\<open>num_stops\<close>.
\<close>

record connection =
  conn_to_station :: station
  conn_travel_time :: rat
  conn_railway :: string
  conn_num_stops :: int

text \<open>The dataclasses \<^verbatim>\<open>RouteSegment\<close> and \<^verbatim>\<open>Route\<close>.\<close>

record RouteSegment =
  from_station :: station
  to_station :: station
  railway :: string
  travel_time :: rat
  num_stops :: int

record Route =
  segments :: "RouteSegment list"
  total_time :: rat
  total_stops :: int

text \<open>
  Python dictionaries keep insertion order; a dictionary is an association list read with
  \<^const>\<open>map_of\<close> and written with \<^const>\<open>AList.update\<close>, which keeps the position of an existing
  key and appends a new one.
\<close>

type_synonym network_graph = "(station \<times> connection list) list"

type_synonym distances = "(station \<times> (rat \<times> Route)) list"

type_synonym pq_entry = "rat \<times> station \<times> RouteSegment list"

record dijkstra_state =
  st_distances :: distances
  st_pq :: "pq_entry list"
  st_visited :: "station set"

section \<open>Building the network: \<^verbatim>\<open>build_network\<close>\<close>

text \<open>The tunable constants of \<^verbatim>\<open>config.py\<close> used by the graph construction.\<close>

definition DEFAULT_AVG_TIME_PER_STOP :: rat where
  "DEFAULT_AVG_TIME_PER_STOP = 5 / 2"

definition DEFAULT_TRANSFER_TIME :: rat where
  "DEFAULT_TRANSFER_TIME = 5"

text \<open>
  A row of the query on the table \<^verbatim>\<open>stations\<close>. The query keeps the rows whose \<^verbatim>\<open>same_as\<close>
  is not null; every other column may be null, which Python reads as \<^verbatim>\<open>None\<close>.
\<close>

record station_row =
  sr_same_as :: station
  sr_title :: "string option"
  sr_title_en :: "string option"
  sr_railway :: "string option"
  sr_latitude :: "rat option"
  sr_longitude :: "rat option"

text \<open>The dictionary stored in \<^verbatim>\<open>station_info\<close> for a station.\<close>

record station_entry =
  info_title :: "string option"
  info_title_en :: "string option"
  info_railway :: "string option"
  info_latitude :: "rat option"
  info_longitude :: "rat option"

text \<open>
  The column \<^verbatim>\<open>station_order\<close> holds JSON text. \<^verbatim>\<open>json.loads\<close> either raises
  \<^verbatim>\<open>JSONDecodeError\<close> or yields the list of entries; an entry is read with
  \<^verbatim>\<open>.get("odpt:station")\<close>, which is \<^verbatim>\<open>None\<close> when the key is missing.
\<close>

datatype parsed_order = JSONDecodeError | StationOrder "string option list"

record railway_row =
  rr_same_as :: string
  rr_title :: "string option"
  rr_title_en :: "string option"
  rr_station_order :: parsed_order

record railway_entry =
  rw_title :: "string option"
  rw_title_en :: "string option"

text \<open>
  The state of a \<^verbatim>\<open>CommuteOptimizer\<close>. A Python set of station identifiers is kept as the
  duplicate-free list of its elements.
\<close>

record optimizer =
  network_graph :: network_graph
  station_info :: "(station \<times> station_entry) list"
  railway_info :: "(string \<times> railway_entry) list"
  transfer_stations :: "(string option \<times> station list) list"

definition init_optimizer :: optimizer where
  "init_optimizer =
     \<lparr>network_graph = [], station_info = [], railway_info = [], transfer_stations = []\<rparr>"

text \<open>The adjacency list of a station; a station that is no key of the graph has none.\<close>

definition connections :: "network_graph \<Rightarrow> station \<Rightarrow> connection list" where
  "connections g k = (case map_of g k of None \<Rightarrow> [] | Some cs \<Rightarrow> cs)"

text \<open>\<^verbatim>\<open>if k not in graph: graph[k] = []\<close> followed by \<^verbatim>\<open>graph[k].append(c)\<close>.\<close>

definition add_connection :: "network_graph \<Rightarrow> station \<Rightarrow> connection \<Rightarrow> network_graph" where
  "add_connection g k c =
     (let g' = (if map_of g k = None then AList.update k [] g else g)
      in AList.update k (connections g' k @ [c]) g')"

text \<open>Python's truth value of \<^verbatim>\<open>entry.get("odpt:station")\<close>: false for \<^verbatim>\<open>None\<close> and for the empty string.\<close>

fun truthy :: "string option \<Rightarrow> bool" where
  "truthy None = False"
| "truthy (Some s) = (s \<noteq> [])"

definition railway_connection :: "string \<Rightarrow> station \<Rightarrow> connection" where
  "railway_connection r b =
     \<lparr>conn_to_station = b, conn_travel_time = DEFAULT_AVG_TIME_PER_STOP, conn_railway = r,
      conn_num_stops = 1\<rparr>"

fun process_railway_order :: "string \<Rightarrow> string option list \<Rightarrow> network_graph \<Rightarrow> network_graph" where
  "process_railway_order r (current # next_stop # rest) g =
     process_railway_order r (next_stop # rest)
       (if \<not> truthy current \<or> \<not> truthy next_stop then g
        else
          (case (current, next_stop) of
             (Some current_station, Some next_station) \<Rightarrow>
               add_connection
                 (add_connection g current_station (railway_connection r next_station))
                 next_station (railway_connection r current_station)
           | _ \<Rightarrow> g))"
| "process_railway_order r _ g = g"

definition transfer_connection :: "station \<Rightarrow> connection" where
  "transfer_connection b =
     \<lparr>conn_to_station = b, conn_travel_time = DEFAULT_TRANSFER_TIME,
      conn_railway = ''Transfer'', conn_num_stops = 0\<rparr>"

text \<open>The pairs \<open>(l[i], l[j])\<close> with \<open>i < j\<close>, in the order of the two nested loops.\<close>

fun index_pairs :: "'a list \<Rightarrow> ('a \<times> 'a) list" where
  "index_pairs [] = []"
| "index_pairs (x # xs) = map (Pair x) xs @ index_pairs xs"

definition add_transfer_pair :: "station \<times> station \<Rightarrow> network_graph \<Rightarrow> network_graph" where
  "add_transfer_pair ab g =
     (let station_a = fst ab; station_b = snd ab;
          g1 = (if map_of g station_a \<noteq> None
                then AList.update station_a
                       (connections g station_a @ [transfer_connection station_b]) g
                else g)
      in if map_of g1 station_b \<noteq> None
         then AList.update station_b (connections g1 station_b @ [transfer_connection station_a]) g1
         else g1)"

text \<open>
  \<^verbatim>\<open>_add_transfer_connections\<close>. The order in which \<^verbatim>\<open>list(station_ids)\<close> enumerates a set is
  not specified by Python; it is the parameter \<open>set_order\<close>, a function that permutes the
  elements.
\<close>

definition add_transfer_connections ::
  "(station list \<Rightarrow> station list) \<Rightarrow> (string option \<times> station list) list \<Rightarrow>
   network_graph \<Rightarrow> network_graph" where
  "add_transfer_connections set_order ts g =
     fold (\<lambda>(station_name, station_ids) g.
             if length station_ids > 1
             then fold add_transfer_pair (index_pairs (set_order station_ids)) g
             else g) ts g"

definition load_station :: "station_row \<Rightarrow> optimizer \<Rightarrow> optimizer" where
  "load_station row s =
     (let station_id = sr_same_as row; title = sr_title row;
          info = AList.update station_id
                   \<lparr>info_title = title, info_title_en = sr_title_en row,
                    info_railway = sr_railway row, info_latitude = sr_latitude row,
                    info_longitude = sr_longitude row\<rparr> (station_info s);
          ts = (if map_of (transfer_stations s) title = None
                then AList.update title [] (transfer_stations s) else transfer_stations s);
          ids = (case map_of ts title of None \<Rightarrow> [] | Some ids \<Rightarrow> ids)
      in s\<lparr>station_info := info,
           transfer_stations := AList.update title (List.insert station_id ids) ts\<rparr>)"

definition load_railway :: "railway_row \<Rightarrow> optimizer \<Rightarrow> optimizer" where
  "load_railway row s =
     (let railway_id = rr_same_as row;
          s' = s\<lparr>railway_info := AList.update railway_id
                   \<lparr>rw_title = rr_title row, rw_title_en = rr_title_en row\<rparr> (railway_info s)\<rparr>
      in case rr_station_order row of
           JSONDecodeError \<Rightarrow> s'
         | StationOrder station_order \<Rightarrow>
             if station_order \<noteq> []
             then s'\<lparr>network_graph := process_railway_order railway_id station_order
                                        (network_graph s')\<rparr>
             else s')"

definition build_network ::
  "(station list \<Rightarrow> station list) \<Rightarrow> station_row list \<Rightarrow> railway_row list \<Rightarrow>
   optimizer \<Rightarrow> optimizer" where
  "build_network set_order station_rows railway_rows s =
     (let s1 = fold load_station station_rows s;
          s2 = fold load_railway railway_rows s1
      in s2\<lparr>network_graph := add_transfer_connections set_order (transfer_stations s2)
                                (network_graph s2)\<rparr>)"

section \<open>Bounded shortest paths with routes: \<^verbatim>\<open>_dijkstra_with_path\<close>\<close>

text \<open>
  The priority queue of \<^verbatim>\<open>heapq\<close> is kept as the list of its entries: \<^verbatim>\<open>heappush\<close> adds an
  entry, \<^verbatim>\<open>heappop\<close> removes the least one in Python's tuple order, which compares the time
  first and the station identifier second.
\<close>

definition pq_key :: "pq_entry \<Rightarrow> rat \<times> station" where
  "pq_key e = (fst e, fst (snd e))"

definition heappush :: "pq_entry list \<Rightarrow> pq_entry \<Rightarrow> pq_entry list" where
  "heappush pq e = pq @ [e]"

definition heappop :: "pq_entry list \<Rightarrow> pq_entry \<times> pq_entry list" where
  "heappop pq = (let m = arg_min_list pq_key pq in (m, remove1 m pq))"

text \<open>The body of the loop over the connections of the current station.\<close>

definition relax_connection ::
  "rat \<Rightarrow> rat \<Rightarrow> station \<Rightarrow> RouteSegment list \<Rightarrow> connection \<Rightarrow>
   distances \<times> pq_entry list \<Rightarrow> distances \<times> pq_entry list" where
  "relax_connection max_time current_time current_station path_segments c dq =
     (let next_station = conn_to_station c;
          new_time = current_time + conn_travel_time c
      in if new_time \<le> max_time then
           let segment = \<lparr>from_station = current_station, to_station = next_station,
                          railway = conn_railway c, travel_time = conn_travel_time c,
                          num_stops = conn_num_stops c\<rparr>;
               new_path = path_segments @ [segment];
               new_route = \<lparr>segments = new_path, total_time = new_time,
                            total_stops = sum_list (map num_stops new_path)\<rparr>
           in if (case map_of (fst dq) next_station of
                    None \<Rightarrow> True
                  | Some best \<Rightarrow> new_time < fst best)
              then (AList.update next_station (new_time, new_route) (fst dq),
                    heappush (snd dq) (new_time, next_station, new_path))
              else dq
         else dq)"

text \<open>One iteration of the \<^verbatim>\<open>while pq\<close> loop, for a non-empty queue.\<close>

definition dijkstra_step :: "network_graph \<Rightarrow> rat \<Rightarrow> dijkstra_state \<Rightarrow> dijkstra_state" where
  "dijkstra_step g max_time s =
     (let (e, pq') = heappop (st_pq s);
          current_time = fst e;
          current_station = fst (snd e);
          path_segments = snd (snd e)
      in if current_station \<in> st_visited s then s\<lparr>st_pq := pq'\<rparr>
         else
           let visited' = insert current_station (st_visited s)
           in if current_time > max_time then s\<lparr>st_pq := pq', st_visited := visited'\<rparr>
              else
                (case map_of g current_station of
                   None \<Rightarrow> s\<lparr>st_pq := pq', st_visited := visited'\<rparr>
                 | Some conns \<Rightarrow>
                     let dq = fold (relax_connection max_time current_time current_station
                                      path_segments) conns (st_distances s, pq')
                     in \<lparr>st_distances = fst dq, st_pq = snd dq, st_visited = visited'\<rparr>))"

text \<open>
  The loop ends: every station is expanded at most once, and an expansion pushes at most as
  many entries as the station has connections.
\<close>

definition unexpanded_weight :: "network_graph \<Rightarrow> station set \<Rightarrow> nat" where
  "unexpanded_weight g visited =
     sum_list (map (\<lambda>kv. Suc (length (snd kv))) (filter (\<lambda>kv. fst kv \<notin> visited) g))"

definition dijkstra_measure :: "network_graph \<Rightarrow> dijkstra_state \<Rightarrow> nat" where
  "dijkstra_measure g s = length (st_pq s) + unexpanded_weight g (st_visited s)"

lemma length_relax_connection:
  "length (snd (relax_connection T t u p c dq)) \<le> Suc (length (snd dq))"
  by (simp add: relax_connection_def heappush_def Let_def)

lemma length_fold_relax:
  "length (snd (fold (relax_connection T t u p) cs dq)) \<le> length cs + length (snd dq)"
proof (induction cs arbitrary: dq)
  case Nil
  show ?case by simp
next
  case (Cons c cs)
  have "length (snd (fold (relax_connection T t u p) cs (relax_connection T t u p c dq)))
          \<le> length cs + length (snd (relax_connection T t u p c dq))"
    by (rule Cons.IH)
  also have "\<dots> \<le> length cs + Suc (length (snd dq))"
    using length_relax_connection [of T t u p c dq] by simp
  finally show ?case by simp
qed

lemma unexpanded_weight_insert_le:
  "unexpanded_weight g (insert u V) \<le> unexpanded_weight g V"
  unfolding unexpanded_weight_def by (induction g) auto

lemma unexpanded_weight_insert_less:
  "map_of g u = Some cs \<Longrightarrow> u \<notin> V \<Longrightarrow>
   unexpanded_weight g (insert u V) + Suc (length cs) \<le> unexpanded_weight g V"
proof (induction g)
  case Nil
  then show ?case by simp
next
  case (Cons kv g)
  show ?case
  proof (cases "fst kv = u")
    case True
    with Cons.prems have "snd kv = cs" by (cases kv) simp
    moreover have "unexpanded_weight g (insert u V) \<le> unexpanded_weight g V"
      by (rule unexpanded_weight_insert_le)
    ultimately show ?thesis
      using True Cons.prems(2) by (simp add: unexpanded_weight_def)
  next
    case False
    with Cons.prems have "map_of g u = Some cs" by (cases kv) (simp split: if_splits)
    from Cons.IH [OF this Cons.prems(2)] False show ?thesis
      by (simp add: unexpanded_weight_def)
  qed
qed

lemma heappop_length:
  assumes "pq \<noteq> []"
  shows "Suc (length (snd (heappop pq))) = length pq"
proof -
  have "arg_min_list pq_key pq \<in> set pq"
    using assms by (rule arg_min_list_in)
  moreover have "0 < length pq"
    using assms by simp
  ultimately show ?thesis
    by (simp add: heappop_def Let_def length_remove1)
qed

lemma dijkstra_step_decreases:
  assumes "st_pq s \<noteq> []"
  shows "dijkstra_measure g (dijkstra_step g T s) < dijkstra_measure g s"
proof -
  obtain e pq' where pop: "heappop (st_pq s) = (e, pq')" by (cases "heappop (st_pq s)")
  from heappop_length [OF assms] pop have len: "Suc (length pq') = length (st_pq s)" by simp
  show ?thesis
  proof (cases "fst (snd e) \<in> st_visited s")
    case True
    then show ?thesis using pop len
      by (simp add: dijkstra_step_def dijkstra_measure_def)
  next
    case unvisited: False
    have le: "unexpanded_weight g (insert (fst (snd e)) (st_visited s))
                \<le> unexpanded_weight g (st_visited s)"
      by (rule unexpanded_weight_insert_le)
    show ?thesis
    proof (cases "fst e > T")
      case True
      then show ?thesis using pop len unvisited le
        by (simp add: dijkstra_step_def dijkstra_measure_def Let_def)
    next
      case within: False
      show ?thesis
      proof (cases "map_of g (fst (snd e))")
        case None
        then show ?thesis using pop len unvisited within le
          by (simp add: dijkstra_step_def dijkstra_measure_def Let_def)
      next
        case (Some conns)
        have "length (snd (fold (relax_connection T (fst e) (fst (snd e)) (snd (snd e))) conns
                 (st_distances s, pq'))) \<le> length conns + length pq'"
          using length_fold_relax [of T "fst e" "fst (snd e)" "snd (snd e)" conns
              "(st_distances s, pq')"] by simp
        moreover have "unexpanded_weight g (insert (fst (snd e)) (st_visited s))
                 + Suc (length conns) \<le> unexpanded_weight g (st_visited s)"
          by (rule unexpanded_weight_insert_less [OF Some unvisited])
        ultimately show ?thesis using pop len unvisited within Some
          by (simp add: dijkstra_step_def dijkstra_measure_def Let_def)
      qed
    qed
  qed
qed

function dijkstra_loop :: "network_graph \<Rightarrow> rat \<Rightarrow> dijkstra_state \<Rightarrow> distances" where
  "dijkstra_loop g max_time s =
     (if st_pq s = [] then st_distances s
      else dijkstra_loop g max_time (dijkstra_step g max_time s))"
  by pat_completeness auto
termination
  by (relation "measure (\<lambda>(g, T, s). dijkstra_measure g s)")
     (auto simp: dijkstra_step_decreases)

definition dijkstra_with_path :: "network_graph \<Rightarrow> station \<Rightarrow> rat \<Rightarrow> distances" where
  "dijkstra_with_path g start_station max_time =
     dijkstra_loop g max_time
       \<lparr>st_distances = [(start_station, (0, \<lparr>segments = [], total_time = 0, total_stops = 0\<rparr>))],
        st_pq = [(0, start_station, [])],
        st_visited = {}\<rparr>"

declare dijkstra_loop.simps [simp del]

text \<open>
  A route is a contiguous path from \<open>u\<close> to \<open>v\<close>: each segment starts where the previous one
  ended; the empty route leads from a station to itself.
\<close>

fun route_path :: "station \<Rightarrow> RouteSegment list \<Rightarrow> station \<Rightarrow> bool" where
  "route_path u [] v = (u = v)"
| "route_path u (sg # sgs) v = (from_station sg = u \<and> route_path (to_station sg) sgs v)"

definition route_consistent :: "station \<Rightarrow> station \<Rightarrow> rat \<times> Route \<Rightarrow> bool" where
  "route_consistent start v tr =
     (route_path start (segments (snd tr)) v \<and>
      total_time (snd tr) = sum_list (map travel_time (segments (snd tr))) \<and>
      total_time (snd tr) = fst tr \<and>
      total_stops (snd tr) = sum_list (map num_stops (segments (snd tr))))"

section \<open>Ranking meeting points: \<^verbatim>\<open>find_optimal_stations\<close>\<close>

text \<open>The exceptions of the modelled code paths.\<close>

datatype py_error =
    ZeroDivisionError
  | AttributeError
  | ValueError string
  | RequestException

record MeetingPoint =
  station_id :: station
  station_name :: "string option"
  route_from_a :: Route
  route_from_b :: Route
  mp_total_time :: rat
  time_difference :: rat
  balance_score :: rat

text \<open>Python's slice \<^verbatim>\<open>xs[:n]\<close>; a negative \<open>n\<close> counts from the end.\<close>

definition py_slice_to :: "int \<Rightarrow> 'a list \<Rightarrow> 'a list" where
  "py_slice_to n xs =
     (if 0 \<le> n then take (nat n) xs else take (nat (int (length xs) + n)) xs)"

text \<open>\<^verbatim>\<open>station_info.get(station, {}).get("title", default)\<close>: a stored null title is returned as it is.\<close>

definition title_or :: "(station \<times> station_entry) list \<Rightarrow> station \<Rightarrow> string \<Rightarrow> string option" where
  "title_or info k dflt =
     (case map_of info k of None \<Rightarrow> Some dflt | Some e \<Rightarrow> info_title e)"

definition common_stations ::
  "(station list \<Rightarrow> station list) \<Rightarrow> distances \<Rightarrow> distances \<Rightarrow> station \<Rightarrow> station \<Rightarrow>
   station list" where
  "common_stations set_order routes_from_a routes_from_b work_station_a work_station_b =
     set_order
       (filter (\<lambda>k. k \<noteq> work_station_a \<and> k \<noteq> work_station_b)
          (filter (\<lambda>k. k \<in> set (map fst routes_from_b)) (remdups (map fst routes_from_a))))"

text \<open>
  The body of the loop over the common stations. Both lookups succeed, a common station
  being a key of both mappings; the division raises when \<open>max_time\<close> is zero.
\<close>

definition meeting_point ::
  "(station \<times> station_entry) list \<Rightarrow> distances \<Rightarrow> distances \<Rightarrow> rat \<Rightarrow> station \<Rightarrow>
   MeetingPoint option" where
  "meeting_point info routes_from_a routes_from_b max_time k =
     (case (map_of routes_from_a k, map_of routes_from_b k) of
        (Some (time_a, route_a), Some (time_b, route_b)) \<Rightarrow>
          Some \<lparr>station_id = k, station_name = title_or info k ''Unknown'',
                route_from_a = route_a, route_from_b = route_b,
                mp_total_time = time_a + time_b,
                time_difference = \<bar>time_a - time_b\<bar>,
                balance_score = 1 - \<bar>time_a - time_b\<bar> / max_time\<rparr>
      | _ \<Rightarrow> None)"

definition ranking_key :: "MeetingPoint \<Rightarrow> rat \<times> rat" where
  "ranking_key x = (mp_total_time x, time_difference x)"

definition ensure_built ::
  "(station list \<Rightarrow> station list) \<Rightarrow> station_row list \<Rightarrow> railway_row list \<Rightarrow>
   optimizer \<Rightarrow> optimizer" where
  "ensure_built set_order station_rows railway_rows s =
     (if network_graph s = [] then build_network set_order station_rows railway_rows s else s)"

definition find_optimal_stations ::
  "(station list \<Rightarrow> station list) \<Rightarrow> station_row list \<Rightarrow> railway_row list \<Rightarrow>
   optimizer \<Rightarrow> station \<Rightarrow> station \<Rightarrow> int \<Rightarrow> rat \<Rightarrow>
   (py_error + MeetingPoint list) \<times> optimizer" where
  "find_optimal_stations set_order station_rows railway_rows s work_station_a work_station_b
     top_n max_time =
     (let s' = ensure_built set_order station_rows railway_rows s;
          routes_from_a = dijkstra_with_path (network_graph s') work_station_a max_time;
          routes_from_b = dijkstra_with_path (network_graph s') work_station_b max_time;
          common = common_stations set_order routes_from_a routes_from_b
                     work_station_a work_station_b
      in if common \<noteq> [] \<and> max_time = 0 then (Inl ZeroDivisionError, s')
         else
           let candidates = List.map_filter
                 (meeting_point (station_info s') routes_from_a routes_from_b max_time) common
           in (Inr (py_slice_to top_n (sort_key ranking_key candidates)), s'))"

section \<open>The analyze endpoint: \<^verbatim>\<open>analyze_commute\<close>\<close>

text \<open>A request that passed the schema validation of \<^verbatim>\<open>AnalyzeRequest\<close>.\<close>

record AnalyzeRequest =
  req_station_a :: station
  req_station_b :: station
  req_top_n :: int
  req_max_time :: rat

text \<open>
  The outcome of the handler: an \<^verbatim>\<open>HTTPException\<close> with status code and detail, or the
  response built from the ranked candidates.
\<close>

datatype http_result = HTTPException int string | AnalyzeResponse "MeetingPoint list"

fun error_str :: "py_error \<Rightarrow> string" where
  "error_str ZeroDivisionError = ''float division by zero''"
| "error_str AttributeError = ''NoneType object has no attribute lower''"
| "error_str (ValueError m) = m"
| "error_str RequestException = ''request failed''"

definition analyze_commute ::
  "(station list \<Rightarrow> station list) \<Rightarrow> station_row list \<Rightarrow> railway_row list \<Rightarrow>
   optimizer \<Rightarrow> AnalyzeRequest \<Rightarrow> http_result \<times> optimizer" where
  "analyze_commute set_order station_rows railway_rows s request =
     (if req_station_a request = req_station_b request
      then (HTTPException 400 ''Work stations must be different'', s)
      else
        let s1 = ensure_built set_order station_rows railway_rows s
        in if map_of (station_info s1) (req_station_a request) = None
           then (HTTPException 404 (''Station A not found: '' @ req_station_a request), s1)
           else if map_of (station_info s1) (req_station_b request) = None
           then (HTTPException 404 (''Station B not found: '' @ req_station_b request), s1)
           else
             (case find_optimal_stations set_order station_rows railway_rows s1
                     (req_station_a request) (req_station_b request)
                     (req_top_n request) (req_max_time request) of
                (Inl e, s2) \<Rightarrow> (HTTPException 500 (''Analysis failed: '' @ error_str e), s2)
              | (Inr candidates, s2) \<Rightarrow>
                  if candidates = []
                  then (HTTPException 404
                          ''No common reachable stations found. Try increasing max_time.'', s2)
                  else (AnalyzeResponse candidates, s2)))"

section \<open>Fetching operator data: \<^verbatim>\<open>fetch_operator_data\<close> and \<^verbatim>\<open>fetch_all_operators\<close>\<close>

record operator_config =
  op_id :: string
  op_name :: string
  op_api_base :: string
  op_env_key :: string

text \<open>The table \<^verbatim>\<open>config.OPERATORS\<close>.\<close>

definition OPERATORS :: "(string \<times> operator_config) list" where
  "OPERATORS =
     [(''JR_EAST'', \<lparr>op_id = ''odpt.Operator:JR-East'', op_name = ''JR East'',
                     op_api_base = ''challenge'', op_env_key = ''ACCESS_TOKEN''\<rparr>),
      (''TOKYO_METRO'', \<lparr>op_id = ''odpt.Operator:TokyoMetro'', op_name = ''Tokyo Metro'',
                         op_api_base = ''production'', op_env_key = ''TOKYO_METRO_KEY''\<rparr>),
      (''KEIKYU'', \<lparr>op_id = ''odpt.Operator:Keikyu'', op_name = ''Keikyu'',
                    op_api_base = ''challenge'', op_env_key = ''ACCESS_TOKEN''\<rparr>)]"

definition ODPT_API_BASE_URL :: string where
  "ODPT_API_BASE_URL = ''https://api.odpt.org/api/v4''"

definition ODPT_API_CHALLENGE_BASE_URL :: string where
  "ODPT_API_CHALLENGE_BASE_URL = ''https://api-challenge.odpt.org/api/v4''"

definition get_api_url :: "string \<Rightarrow> string" where
  "get_api_url api_base =
     (if api_base = ''production'' then ODPT_API_BASE_URL else ODPT_API_CHALLENGE_BASE_URL)"

text \<open>
  The world outside the program: the environment variables, and the transit-data service
  as a function from the endpoint, the operator and the access key to either the decoded
  JSON records or the exception that \<^verbatim>\<open>requests.get\<close>, \<^verbatim>\<open>raise_for_status\<close> or
  \<^verbatim>\<open>response.json\<close> raises. The records themselves are left abstract.
\<close>

record 'j world =
  getenv :: "string \<Rightarrow> string option"
  http_get :: "string \<Rightarrow> string \<Rightarrow> string \<Rightarrow> py_error + 'j list"

definition fetch_data ::
  "'j world \<Rightarrow> string \<Rightarrow> string \<Rightarrow> string \<Rightarrow> string \<Rightarrow> py_error + 'j list" where
  "fetch_data w resource_type operator_id api_base env_key =
     (let endpoint = get_api_url api_base @ ''/odpt:'' @ resource_type
      in case getenv w env_key of
           None \<Rightarrow> Inl (ValueError (env_key @ '' not found in environment variables''))
         | Some api_key \<Rightarrow>
             if api_key = [] then Inl (ValueError (env_key @ '' not found in environment variables''))
             else http_get w endpoint operator_id api_key)"

record 'j operator_data =
  stations :: "'j list"
  railways :: "'j list"

definition fetch_operator_data :: "'j world \<Rightarrow> string \<Rightarrow> py_error + 'j operator_data" where
  "fetch_operator_data w operator_key =
     (case map_of OPERATORS operator_key of
        None \<Rightarrow> Inl (ValueError (''Unknown operator: '' @ operator_key))
      | Some operator_config \<Rightarrow>
          (case fetch_data w ''Station'' (op_id operator_config) (op_api_base operator_config)
                  (op_env_key operator_config) of
             Inl e \<Rightarrow> Inr \<lparr>stations = [], railways = []\<rparr>
           | Inr fetched_stations \<Rightarrow>
               (case fetch_data w ''Railway'' (op_id operator_config)
                       (op_api_base operator_config) (op_env_key operator_config) of
                  Inl e \<Rightarrow> Inr \<lparr>stations = [], railways = []\<rparr>
                | Inr fetched_railways \<Rightarrow>
                    Inr \<lparr>stations = fetched_stations, railways = fetched_railways\<rparr>)))"

text \<open>The loop of \<^verbatim>\<open>fetch_all_operators\<close>: an exception of one fetch ends it.\<close>

fun fetch_each ::
  "'j world \<Rightarrow> string list \<Rightarrow> (string \<times> 'j operator_data) list \<Rightarrow>
   py_error + (string \<times> 'j operator_data) list" where
  "fetch_each w [] all_data = Inr all_data"
| "fetch_each w (operator_key # rest) all_data =
     (case fetch_operator_data w operator_key of
        Inl e \<Rightarrow> Inl e
      | Inr d \<Rightarrow> fetch_each w rest (AList.update operator_key d all_data))"

definition fetch_all_operators ::
  "'j world \<Rightarrow> string list option \<Rightarrow> py_error + (string \<times> 'j operator_data) list" where
  "fetch_all_operators w operator_keys =
     fetch_each w (case operator_keys of None \<Rightarrow> map fst OPERATORS | Some ks \<Rightarrow> ks) []"

text \<open>What the two fetches of one operator produce on their own.\<close>

definition own_fetches :: "'j world \<Rightarrow> operator_config \<Rightarrow> (py_error + 'j list) \<times> (py_error + 'j list)" where
  "own_fetches w c =
     (fetch_data w ''Station'' (op_id c) (op_api_base c) (op_env_key c),
      fetch_data w ''Railway'' (op_id c) (op_api_base c) (op_env_key c))"

definition degraded :: "(py_error + 'j list) \<times> (py_error + 'j list) \<Rightarrow> 'j operator_data" where
  "degraded fr =
     (case fr of
        (Inr s, Inr r) \<Rightarrow> \<lparr>stations = s, railways = r\<rparr>
      | _ \<Rightarrow> \<lparr>stations = [], railways = []\<rparr>)"

section \<open>Persisting stations: \<^verbatim>\<open>insert_stations\<close>\<close>

text \<open>
  The fields of a station record of the transit-data service that reach the route engine.
  \<^verbatim>\<open>odpt:stationTitle\<close> is either absent, a JSON object with the titles by language, or
  some other JSON value.
\<close>

datatype json_title = TitleDict "(string \<times> string) list" | NotADict

record api_station =
  api_id :: "string option"
  api_dc_title :: "string option"
  api_station_title :: "json_title option"
  api_railway :: "string option"
  api_lat :: "rat option"
  api_long :: "rat option"
  api_same_as :: "string option"

text \<open>The columns of the table \<^verbatim>\<open>stations\<close> that \<^verbatim>\<open>build_network\<close> reads, and the primary key.\<close>

record db_station =
  db_id :: "string option"
  db_title :: "string option"
  db_title_en :: "string option"
  db_railway :: "string option"
  db_latitude :: "rat option"
  db_longitude :: "rat option"
  db_same_as :: "string option"

definition station_values :: "api_station \<Rightarrow> db_station" where
  "station_values station =
     \<lparr>db_id = api_id station,
      db_title = api_dc_title station,
      db_title_en = (case api_station_title station of
                       Some (TitleDict d) \<Rightarrow> map_of d ''en''
                     | _ \<Rightarrow> None),
      db_railway = api_railway station,
      db_latitude = api_lat station,
      db_longitude = api_long station,
      db_same_as = api_same_as station\<rparr>"

text \<open>\<^verbatim>\<open>INSERT OR REPLACE\<close>: a row with the same non-null primary key is replaced.\<close>

definition insert_or_replace :: "db_station \<Rightarrow> db_station list \<Rightarrow> db_station list" where
  "insert_or_replace row table =
     filter (\<lambda>r. db_id row = None \<or> db_id r \<noteq> db_id row) table @ [row]"

definition insert_stations :: "api_station list \<Rightarrow> db_station list \<Rightarrow> db_station list" where
  "insert_stations sts table = fold (\<lambda>station. insert_or_replace (station_values station)) sts table"

text \<open>The query of \<^verbatim>\<open>build_network\<close> on the table: the rows whose \<^verbatim>\<open>same_as\<close> is not null.\<close>

definition select_stations :: "db_station list \<Rightarrow> station_row list" where
  "select_stations table =
     List.map_filter (\<lambda>r. case db_same_as r of
         None \<Rightarrow> None
       | Some k \<Rightarrow> Some \<lparr>sr_same_as = k, sr_title = db_title r, sr_title_en = db_title_en r,
                         sr_railway = db_railway r, sr_latitude = db_latitude r,
                         sr_longitude = db_longitude r\<rparr>) table"

section \<open>Searching stations: \<^verbatim>\<open>search_station\<close>\<close>

text \<open>Python's \<^verbatim>\<open>a in b\<close> on strings.\<close>

fun is_substring :: "string \<Rightarrow> string \<Rightarrow> bool" where
  "is_substring xs [] = (xs = [])"
| "is_substring xs (y # ys) = (take (length xs) (y # ys) = xs \<or> is_substring xs ys)"

type_synonym search_result = "station \<times> string \<times> string option \<times> string option"

text \<open>
  The loop over \<^verbatim>\<open>station_info.items()\<close>. \<^verbatim>\<open>info.get("title", "")\<close> returns the stored value,
  also when it is \<^verbatim>\<open>None\<close>, and \<^verbatim>\<open>None.lower()\<close> raises \<^verbatim>\<open>AttributeError\<close>; the English title
  is only looked at when the title does not match. \<^verbatim>\<open>str.lower\<close> is the parameter \<open>lower\<close>.
\<close>

fun search_loop ::
  "(string \<Rightarrow> string) \<Rightarrow> string \<Rightarrow> (station \<times> station_entry) list \<Rightarrow> search_result list \<Rightarrow>
   py_error + search_result list" where
  "search_loop lower search_term_lower [] results = Inr results"
| "search_loop lower search_term_lower ((sid, info) # rest) results =
     (case info_title info of
        None \<Rightarrow> Inl AttributeError
      | Some title \<Rightarrow>
          if is_substring search_term_lower (lower title)
          then search_loop lower search_term_lower rest
                 (results @ [(sid, title, info_title_en info, info_railway info)])
          else
            (case info_title_en info of
               None \<Rightarrow> Inl AttributeError
             | Some title_en \<Rightarrow>
                 if is_substring search_term_lower (lower title_en)
                 then search_loop lower search_term_lower rest
                        (results @ [(sid, title, info_title_en info, info_railway info)])
                 else search_loop lower search_term_lower rest results))"

definition search_station ::
  "(string \<Rightarrow> string) \<Rightarrow> optimizer \<Rightarrow> string \<Rightarrow> py_error + search_result list" where
  "search_station lower s search_term =
     (case search_loop lower (lower search_term) (station_info s) [] of
        Inl e \<Rightarrow> Inl e
      | Inr results \<Rightarrow> Inr (sort_key (\<lambda>x. fst (snd x)) results))"

text \<open>A station makes the search raise when a null title is lowered.\<close>

definition raises_on :: "(string \<Rightarrow> string) \<Rightarrow> string \<Rightarrow> station_entry \<Rightarrow> bool" where
  "raises_on lower search_term_lower info =
     (case info_title info of
        None \<Rightarrow> True
      | Some title \<Rightarrow>
          \<not> is_substring search_term_lower (lower title) \<and> info_title_en info = None)"

section \<open>Invariants of the search loop\<close>

lemma dijkstra_loop_invariant:
  assumes "I s"
    and "\<And>s. I s \<Longrightarrow> st_pq s \<noteq> [] \<Longrightarrow> I (dijkstra_step g T s)"
  shows "\<exists>s'. I s' \<and> st_pq s' = [] \<and> dijkstra_loop g T s = st_distances s'"
  using assms
proof (induction g T s rule: dijkstra_loop.induct)
  case (1 g T s)
  note inv = "1.prems"(1) and step = "1.prems"(2)
  show ?case
  proof (cases "st_pq s = []")
    case True
    then have "dijkstra_loop g T s = st_distances s"
      by (subst dijkstra_loop.simps) simp
    with inv True have "I s \<and> st_pq s = [] \<and> dijkstra_loop g T s = st_distances s"
      by simp
    then show ?thesis by (rule exI)
  next
    case False
    have "I (dijkstra_step g T s)"
      using inv False by (rule step)
    from "1.IH" [OF False this step]
    obtain s' where "I s'" and "st_pq s' = []"
      and "dijkstra_loop g T (dijkstra_step g T s) = st_distances s'"
      by blast
    moreover have "dijkstra_loop g T s = dijkstra_loop g T (dijkstra_step g T s)"
      using False by (subst dijkstra_loop.simps) simp
    ultimately have "I s' \<and> st_pq s' = [] \<and> dijkstra_loop g T s = st_distances s'"
      by simp
    then show ?thesis by (rule exI)
  qed
qed

lemma fold_relax_invariant:
  assumes "P dq"
    and "\<And>c dq. P dq \<Longrightarrow> P (relax_connection T t u p c dq)"
  shows "P (fold (relax_connection T t u p) cs dq)"
  using assms(1)
proof (induction cs arbitrary: dq)
  case Nil
  then show ?case by simp
next
  case (Cons c cs)
  from assms(2) [OF Cons.prems] have "P (relax_connection T t u p c dq)" .
  from Cons.IH [OF this] show ?case by simp
qed

lemma heappop_in:
  "pq \<noteq> [] \<Longrightarrow> fst (heappop pq) \<in> set pq"
  by (simp add: heappop_def Let_def arg_min_list_in)

lemma heappop_rest:
  "snd (heappop pq) = remove1 (fst (heappop pq)) pq"
  by (simp add: heappop_def Let_def)

text \<open>
  What one iteration does to the distances and the queue: it drops the popped entry, and
  when the entry's station is expanded it relaxes the station's connections in order.
\<close>

lemma dijkstra_step_cases:
  assumes "st_pq s \<noteq> []"
  obtains (skip) e where "e \<in> set (st_pq s)"
      and "st_distances (dijkstra_step g T s) = st_distances s"
      and "st_pq (dijkstra_step g T s) = remove1 e (st_pq s)"
    | (expand) e conns where "e \<in> set (st_pq s)"
      and "fst e \<le> T"
      and "map_of g (fst (snd e)) = Some conns"
      and "(st_distances (dijkstra_step g T s), st_pq (dijkstra_step g T s)) =
             fold (relax_connection T (fst e) (fst (snd e)) (snd (snd e))) conns
               (st_distances s, remove1 e (st_pq s))"
proof -
  define e where "e = fst (heappop (st_pq s))"
  have pop: "heappop (st_pq s) = (e, remove1 e (st_pq s))"
    by (simp add: e_def heappop_def Let_def)
  have mem: "e \<in> set (st_pq s)"
    unfolding e_def using assms by (rule heappop_in)
  show thesis
  proof (cases "fst (snd e) \<notin> st_visited s \<and> fst e \<le> T \<and> map_of g (fst (snd e)) \<noteq> None")
    case True
    then obtain conns where c: "map_of g (fst (snd e)) = Some conns" by auto
    show thesis
    proof (rule expand [OF mem _ c])
      show "fst e \<le> T" using True by simp
      show "(st_distances (dijkstra_step g T s), st_pq (dijkstra_step g T s)) =
             fold (relax_connection T (fst e) (fst (snd e)) (snd (snd e))) conns
               (st_distances s, remove1 e (st_pq s))"
        using True c pop by (simp add: dijkstra_step_def Let_def)
    qed
  next
    case False
    show thesis
    proof (rule skip [OF mem])
      show "st_distances (dijkstra_step g T s) = st_distances s"
        using False pop by (auto simp: dijkstra_step_def Let_def split: option.splits)
      show "st_pq (dijkstra_step g T s) = remove1 e (st_pq s)"
        using False pop by (auto simp: dijkstra_step_def Let_def split: option.splits)
    qed
  qed
qed

subsection \<open>Every recorded time is within the bound\<close>

definition dist_bounded :: "rat \<Rightarrow> distances \<Rightarrow> bool" where
  "dist_bounded T d = (\<forall>v tr. map_of d v = Some tr \<longrightarrow> fst tr \<le> T)"

lemma relax_connection_bounded:
  "dist_bounded T (fst dq) \<Longrightarrow> dist_bounded T (fst (relax_connection T t u p c dq))"
  by (auto simp: relax_connection_def dist_bounded_def Let_def update_conv' split: option.splits)

lemma dijkstra_step_bounded:
  assumes "dist_bounded T (st_distances s)" and "st_pq s \<noteq> []"
  shows "dist_bounded T (st_distances (dijkstra_step g T s))"
  using assms(2)
proof (cases rule: dijkstra_step_cases [where g = g and T = T])
  case (skip e)
  with assms(1) show ?thesis by simp
next
  case (expand e conns)
  have "dist_bounded T (fst (fold (relax_connection T (fst e) (fst (snd e)) (snd (snd e))) conns
          (st_distances s, remove1 e (st_pq s))))"
    by (rule fold_relax_invariant [where P = "\<lambda>dq. dist_bounded T (fst dq)"])
       (simp_all add: assms(1) relax_connection_bounded)
  with expand(4) show ?thesis by (metis fst_conv)
qed

lemma dijkstra_with_path_bounded:
  assumes "0 \<le> T"
  shows "dist_bounded T (dijkstra_with_path g start T)"
proof -
  let ?s0 = "\<lparr>st_distances = [(start, (0, \<lparr>segments = [], total_time = 0, total_stops = 0\<rparr>))],
              st_pq = [(0, start, [])], st_visited = {}\<rparr>"
  have "dist_bounded T (st_distances ?s0)"
    using assms by (simp add: dist_bounded_def)
  from dijkstra_loop_invariant [where I = "\<lambda>s. dist_bounded T (st_distances s)", OF this]
  obtain s' :: dijkstra_state where "dist_bounded T (st_distances s')"
    and "dijkstra_loop g T ?s0 = st_distances s'"
    using dijkstra_step_bounded by blast
  then show ?thesis by (simp add: dijkstra_with_path_def)
qed

subsection \<open>Every recorded route matches its recorded time\<close>

lemma route_path_snoc:
  "route_path u p w \<Longrightarrow> from_station sg = w \<Longrightarrow> route_path u (p @ [sg]) (to_station sg)"
  by (induction p arbitrary: u) auto

definition dist_consistent :: "station \<Rightarrow> distances \<Rightarrow> bool" where
  "dist_consistent start d = (\<forall>v tr. map_of d v = Some tr \<longrightarrow> route_consistent start v tr)"

definition pq_consistent :: "station \<Rightarrow> pq_entry list \<Rightarrow> bool" where
  "pq_consistent start pq =
     (\<forall>e \<in> set pq. route_path start (snd (snd e)) (fst (snd e)) \<and>
                     sum_list (map travel_time (snd (snd e))) = fst e)"

lemma relax_connection_consistent:
  assumes "route_path start p u" and "sum_list (map travel_time p) = t"
    and "dist_consistent start (fst dq) \<and> pq_consistent start (snd dq)"
  shows "dist_consistent start (fst (relax_connection T t u p c dq)) \<and>
         pq_consistent start (snd (relax_connection T t u p c dq))"
proof -
  let ?sg = "\<lparr>from_station = u, to_station = conn_to_station c, railway = conn_railway c,
              travel_time = conn_travel_time c, num_stops = conn_num_stops c\<rparr>"
  let ?r = "\<lparr>segments = p @ [?sg], total_time = t + conn_travel_time c,
             total_stops = sum_list (map num_stops (p @ [?sg]))\<rparr>"
  have path: "route_path start (p @ [?sg]) (conn_to_station c)"
    using route_path_snoc [OF assms(1), of ?sg] by simp
  have time: "sum_list (map travel_time (p @ [?sg])) = t + conn_travel_time c"
    using assms(2) by simp
  have rc: "route_consistent start (conn_to_station c) (t + conn_travel_time c, ?r)"
    using path time by (simp add: route_consistent_def)
  have d: "dist_consistent start
             (AList.update (conn_to_station c) (t + conn_travel_time c, ?r) (fst dq))"
    using assms(3) rc by (simp add: dist_consistent_def update_conv')
  have q: "pq_consistent start
             (heappush (snd dq) (t + conn_travel_time c, conn_to_station c, p @ [?sg]))"
    using assms(3) path time by (simp add: pq_consistent_def heappush_def)
  show ?thesis
    using assms(3) d q by (simp add: relax_connection_def Let_def)
qed

lemma dijkstra_step_consistent:
  assumes "dist_consistent start (st_distances s) \<and> pq_consistent start (st_pq s)"
    and "st_pq s \<noteq> []"
  shows "dist_consistent start (st_distances (dijkstra_step g T s)) \<and>
         pq_consistent start (st_pq (dijkstra_step g T s))"
  using assms(2)
proof (cases rule: dijkstra_step_cases [where g = g and T = T])
  case (skip e)
  have "pq_consistent start (remove1 e (st_pq s))"
    using assms(1) set_remove1_subset [of e "st_pq s"] by (auto simp: pq_consistent_def)
  with skip assms(1) show ?thesis by simp
next
  case (expand e conns)
  have e_path: "route_path start (snd (snd e)) (fst (snd e))"
    and e_time: "sum_list (map travel_time (snd (snd e))) = fst e"
    using assms(1) expand(1) by (auto simp: pq_consistent_def)
  let ?f = "relax_connection T (fst e) (fst (snd e)) (snd (snd e))"
  have rest: "pq_consistent start (remove1 e (st_pq s))"
    using assms(1) set_remove1_subset [of e "st_pq s"] by (auto simp: pq_consistent_def)
  have "dist_consistent start (fst (fold ?f conns (st_distances s, remove1 e (st_pq s)))) \<and>
        pq_consistent start (snd (fold ?f conns (st_distances s, remove1 e (st_pq s))))"
  proof (rule fold_relax_invariant
      [where P = "\<lambda>dq. dist_consistent start (fst dq) \<and> pq_consistent start (snd dq)"])
    show "dist_consistent start (fst (st_distances s, remove1 e (st_pq s))) \<and>
          pq_consistent start (snd (st_distances s, remove1 e (st_pq s)))"
      using assms(1) rest by simp
  next
    fix c dq
    assume "dist_consistent start (fst dq) \<and> pq_consistent start (snd dq)"
    then show "dist_consistent start (fst (?f c dq)) \<and> pq_consistent start (snd (?f c dq))"
      by (rule relax_connection_consistent [OF e_path e_time])
  qed
  moreover have "st_distances (dijkstra_step g T s)
                   = fst (fold ?f conns (st_distances s, remove1 e (st_pq s)))"
    and "st_pq (dijkstra_step g T s) = snd (fold ?f conns (st_distances s, remove1 e (st_pq s)))"
    using expand(4) by (metis fst_conv, metis snd_conv)
  ultimately show ?thesis by simp
qed

lemma dijkstra_with_path_consistent:
  "dist_consistent start (dijkstra_with_path g start T)"
proof -
  let ?s0 = "\<lparr>st_distances = [(start, (0, \<lparr>segments = [], total_time = 0, total_stops = 0\<rparr>))],
              st_pq = [(0, start, [])], st_visited = {}\<rparr>"
  let ?I = "\<lambda>s. dist_consistent start (st_distances s) \<and> pq_consistent start (st_pq s)"
  have init: "?I ?s0"
    by (simp add: dist_consistent_def pq_consistent_def route_consistent_def)
  have step: "\<And>s. ?I s \<Longrightarrow> st_pq s \<noteq> [] \<Longrightarrow> ?I (dijkstra_step g T s)"
    by (rule dijkstra_step_consistent)
  from dijkstra_loop_invariant [where I = ?I, OF init step]
  obtain s' :: dijkstra_state where "?I s'" and "dijkstra_loop g T ?s0 = st_distances s'"
    by blast
  then show ?thesis by (simp add: dijkstra_with_path_def)
qed

subsection \<open>A smaller bound yields a restriction of the run\<close>

definition entry_within :: "rat \<Rightarrow> pq_entry \<Rightarrow> bool" where
  "entry_within T e = (fst e \<le> T)"

definition restrict_dist :: "rat \<Rightarrow> (rat \<times> Route) option \<Rightarrow> (rat \<times> Route) option" where
  "restrict_dist T x = (case x of None \<Rightarrow> None | Some tr \<Rightarrow> if fst tr \<le> T then Some tr else None)"

definition dq_restricts ::
  "rat \<Rightarrow> distances \<times> pq_entry list \<Rightarrow> distances \<times> pq_entry list \<Rightarrow> bool" where
  "dq_restricts T dq1 dq2 =
     (snd dq1 = filter (entry_within T) (snd dq2) \<and>
      (\<forall>v. map_of (fst dq1) v = restrict_dist T (map_of (fst dq2) v)))"

lemma arg_min_list_Cons:
  "xs \<noteq> [] \<Longrightarrow>
   arg_min_list f (x # xs) = (if f x \<le> f (arg_min_list f xs) then x else arg_min_list f xs)"
  by (cases xs) (simp_all add: Let_def)

lemma arg_min_list_filter:
  assumes sep: "\<And>x y. P x \<Longrightarrow> \<not> P y \<Longrightarrow> f x < f y"
  shows "\<exists>x \<in> set xs. P x \<Longrightarrow> arg_min_list f (filter P xs) = arg_min_list f xs"
proof (induction xs)
  case Nil
  then show ?case by simp
next
  case (Cons x xs)
  show ?case
  proof (cases "\<exists>y \<in> set xs. P y")
    case True
    then have ne: "xs \<noteq> []" and fne: "filter P xs \<noteq> []"
      by (auto simp: filter_empty_conv)
    from Cons.IH [OF True] have eq: "arg_min_list f (filter P xs) = arg_min_list f xs" .
    have "arg_min_list f (filter P xs) \<in> set (filter P xs)"
      using fne by (rule arg_min_list_in)
    then have Pm: "P (arg_min_list f xs)" using eq by simp
    show ?thesis
    proof (cases "P x")
      case True
      then show ?thesis using ne fne eq by (simp add: arg_min_list_Cons)
    next
      case False
      from sep [OF Pm False] have "\<not> f x \<le> f (arg_min_list f xs)" by simp
      then show ?thesis using False ne eq by (simp add: arg_min_list_Cons)
    qed
  next
    case False
    with Cons.prems have Px: "P x" by auto
    from False have empty: "filter P xs = []" by (simp add: filter_empty_conv)
    show ?thesis
    proof (cases "xs = []")
      case True
      then show ?thesis using Px by simp
    next
      case ne: False
      then have "arg_min_list f xs \<in> set xs" by (rule arg_min_list_in)
      with False have "\<not> P (arg_min_list f xs)" by blast
      from sep [OF Px this] have "f x \<le> f (arg_min_list f xs)" by simp
      then show ?thesis using Px empty ne by (simp add: arg_min_list_Cons)
    qed
  qed
qed

lemma entry_within_separates:
  "entry_within T x \<Longrightarrow> \<not> entry_within T y \<Longrightarrow> pq_key x < pq_key y"
  by (auto simp: entry_within_def pq_key_def less_prod_def)

lemma heappop_filter:
  assumes "filter (entry_within T) pq \<noteq> []"
  shows "fst (heappop (filter (entry_within T) pq)) = fst (heappop pq)"
    and "snd (heappop (filter (entry_within T) pq)) = filter (entry_within T) (snd (heappop pq))"
    and "entry_within T (fst (heappop pq))"
proof -
  from assms have ex: "\<exists>x \<in> set pq. entry_within T x" by (auto simp: filter_empty_conv)
  have eq: "arg_min_list pq_key (filter (entry_within T) pq) = arg_min_list pq_key pq"
    using entry_within_separates ex by (rule arg_min_list_filter)
  show "fst (heappop (filter (entry_within T) pq)) = fst (heappop pq)"
    using eq by (simp add: heappop_def Let_def)
  show "snd (heappop (filter (entry_within T) pq)) = filter (entry_within T) (snd (heappop pq))"
    using eq by (simp add: heappop_def Let_def filter_remove1)
  have "arg_min_list pq_key (filter (entry_within T) pq) \<in> set (filter (entry_within T) pq)"
    using assms by (rule arg_min_list_in)
  then show "entry_within T (fst (heappop pq))"
    using eq by (simp add: heappop_def Let_def)
qed


lemma restrict_dist_simps:
  "restrict_dist T None = None"
  "restrict_dist T (Some tr) = (if fst tr \<le> T then Some tr else None)"
  by (simp_all add: restrict_dist_def)

lemma relax_connection_restricts:
  assumes "T1 \<le> T2" and "dq_restricts T1 dq1 dq2"
  shows "dq_restricts T1 (relax_connection T1 t u p c dq1) (relax_connection T2 t u p c dq2)"
proof -
  let ?v = "conn_to_station c"
  let ?nt = "t + conn_travel_time c"
  from assms(2) have pq: "snd dq1 = filter (entry_within T1) (snd dq2)"
    and d: "\<And>v. map_of (fst dq1) v = restrict_dist T1 (map_of (fst dq2) v)"
    by (simp_all add: dq_restricts_def)
  show ?thesis
  proof (cases "?nt \<le> T1")
    case low: True
    then have le2: "?nt \<le> T2" using assms(1) by simp
    have same_test: "(case map_of (fst dq1) ?v of None \<Rightarrow> True | Some best \<Rightarrow> ?nt < fst best)
        = (case map_of (fst dq2) ?v of None \<Rightarrow> True | Some best \<Rightarrow> ?nt < fst best)"
      using low by (auto simp: d [of ?v] restrict_dist_def split: option.splits)
    show ?thesis
    proof (cases "case map_of (fst dq2) ?v of None \<Rightarrow> True | Some best \<Rightarrow> ?nt < fst best")
      case True
      then show ?thesis
        using low le2 same_test pq d
        by (simp add: relax_connection_def Let_def dq_restricts_def update_conv' heappush_def
            entry_within_def restrict_dist_simps)
    next
      case False
      then show ?thesis
        using low le2 same_test assms(2)
        by (simp add: relax_connection_def Let_def)
    qed
  next
    case high: False
    then have r1: "relax_connection T1 t u p c dq1 = dq1"
      by (simp add: relax_connection_def Let_def)
    show ?thesis
    proof (cases "?nt \<le> T2 \<and>
        (case map_of (fst dq2) ?v of None \<Rightarrow> True | Some best \<Rightarrow> ?nt < fst best)")
      case False
      then have "relax_connection T2 t u p c dq2 = dq2"
        by (auto simp: relax_connection_def Let_def)
      with r1 assms(2) show ?thesis by simp
    next
      case True
      have none1: "map_of (fst dq1) ?v = None"
        using True high by (auto simp: d [of ?v] restrict_dist_def split: option.splits)
      show ?thesis
        using True high r1 pq d none1
        by (simp add: relax_connection_def Let_def dq_restricts_def update_conv' heappush_def
            entry_within_def restrict_dist_simps)
    qed
  qed
qed

lemma fold_relax_restricts:
  assumes "T1 \<le> T2"
  shows "dq_restricts T1 dq1 dq2 \<Longrightarrow>
         dq_restricts T1 (fold (relax_connection T1 t u p) cs dq1)
                         (fold (relax_connection T2 t u p) cs dq2)"
proof (induction cs arbitrary: dq1 dq2)
  case Nil
  then show ?case by simp
next
  case (Cons c cs)
  have "dq_restricts T1 (relax_connection T1 t u p c dq1) (relax_connection T2 t u p c dq2)"
    using assms Cons.prems by (rule relax_connection_restricts)
  from Cons.IH [OF this] show ?case by simp
qed

definition state_restricts :: "rat \<Rightarrow> dijkstra_state \<Rightarrow> dijkstra_state \<Rightarrow> bool" where
  "state_restricts T s1 s2 =
     (st_visited s1 = st_visited s2 \<and>
      dq_restricts T (st_distances s1, st_pq s1) (st_distances s2, st_pq s2))"

lemma dijkstra_step_restricts:
  assumes "T1 \<le> T2" and "state_restricts T1 s1 s2" and "st_pq s1 \<noteq> []"
  shows "state_restricts T1 (dijkstra_step g T1 s1) (dijkstra_step g T2 s2)"
proof -
  from assms(2) have vis: "st_visited s1 = st_visited s2"
    and pq: "st_pq s1 = filter (entry_within T1) (st_pq s2)"
    and d: "\<And>v. map_of (st_distances s1) v = restrict_dist T1 (map_of (st_distances s2) v)"
    by (simp_all add: state_restricts_def dq_restricts_def)
  from assms(3) pq have ne: "filter (entry_within T1) (st_pq s2) \<noteq> []" by simp
  define e where "e = fst (heappop (st_pq s2))"
  define rest2 where "rest2 = snd (heappop (st_pq s2))"
  have pop2: "heappop (st_pq s2) = (e, rest2)" by (simp add: e_def rest2_def)
  have pop1: "heappop (st_pq s1) = (e, filter (entry_within T1) rest2)"
    using heappop_filter(1,2) [OF ne] pq by (simp add: e_def rest2_def prod_eq_iff)
  have low: "fst e \<le> T1"
    using heappop_filter(3) [OF ne] by (simp add: e_def entry_within_def)
  then have low2: "fst e \<le> T2" using assms(1) by simp
  have base: "dq_restricts T1 (st_distances s1, filter (entry_within T1) rest2)
                (st_distances s2, rest2)"
    using d by (simp add: dq_restricts_def)
  show ?thesis
  proof (cases "fst (snd e) \<in> st_visited s2")
    case True
    then show ?thesis using pop1 pop2 vis base
      by (simp add: dijkstra_step_def state_restricts_def)
  next
    case unvisited: False
    show ?thesis
    proof (cases "map_of g (fst (snd e))")
      case None
      then show ?thesis using pop1 pop2 vis base unvisited low low2
        by (simp add: dijkstra_step_def state_restricts_def Let_def)
    next
      case (Some conns)
      have "dq_restricts T1
              (fold (relax_connection T1 (fst e) (fst (snd e)) (snd (snd e))) conns
                 (st_distances s1, filter (entry_within T1) rest2))
              (fold (relax_connection T2 (fst e) (fst (snd e)) (snd (snd e))) conns
                 (st_distances s2, rest2))"
        using assms(1) base by (rule fold_relax_restricts)
      then show ?thesis using pop1 pop2 vis unvisited low low2 Some
        by (simp add: dijkstra_step_def state_restricts_def Let_def dq_restricts_def)
    qed
  qed
qed


subsection \<open>The keys of the distances only grow\<close>

lemma relax_connection_keys:
  "D \<subseteq> dom (map_of (fst dq)) \<Longrightarrow> D \<subseteq> dom (map_of (fst (relax_connection T t u p c dq)))"
  by (auto simp: relax_connection_def Let_def update_conv')

lemma dijkstra_step_keys:
  assumes "st_pq s \<noteq> []"
  shows "dom (map_of (st_distances s)) \<subseteq> dom (map_of (st_distances (dijkstra_step g T s)))"
  using assms
proof (cases rule: dijkstra_step_cases [where g = g and T = T])
  case (skip e)
  then show ?thesis by simp
next
  case (expand e conns)
  let ?f = "relax_connection T (fst e) (fst (snd e)) (snd (snd e))"
  have "dom (map_of (st_distances s))
          \<subseteq> dom (map_of (fst (fold ?f conns (st_distances s, remove1 e (st_pq s)))))"
    by (rule fold_relax_invariant
          [where P = "\<lambda>dq. dom (map_of (st_distances s)) \<subseteq> dom (map_of (fst dq))"])
       (simp_all add: relax_connection_keys)
  moreover have "st_distances (dijkstra_step g T s)
                   = fst (fold ?f conns (st_distances s, remove1 e (st_pq s)))"
    using expand(4) by (metis fst_conv)
  ultimately show ?thesis by simp
qed

lemma dijkstra_loop_keys:
  "dom (map_of (st_distances s)) \<subseteq> dom (map_of (dijkstra_loop g T s))"
proof (induction g T s rule: dijkstra_loop.induct)
  case (1 g T s)
  show ?case
  proof (cases "st_pq s = []")
    case True
    then have "dijkstra_loop g T s = st_distances s"
      by (subst dijkstra_loop.simps) simp
    then show ?thesis by simp
  next
    case False
    have "dijkstra_loop g T s = dijkstra_loop g T (dijkstra_step g T s)"
      using False by (subst dijkstra_loop.simps) simp
    moreover note dijkstra_step_keys [OF False, of g T] "1.IH" [OF False]
    ultimately show ?thesis by auto
  qed
qed

lemma dijkstra_loop_restricts:
  assumes "T1 \<le> T2"
  shows "state_restricts T1 s1 s2 \<Longrightarrow>
         dom (map_of (dijkstra_loop g T1 s1)) \<subseteq> dom (map_of (dijkstra_loop g T2 s2))"
  using assms
proof (induction g T1 s1 arbitrary: s2 rule: dijkstra_loop.induct)
  case (1 g T1 s1)
  note rel = "1.prems"(1) and le = "1.prems"(2)
  show ?case
  proof (cases "st_pq s1 = []")
    case True
    then have "dijkstra_loop g T1 s1 = st_distances s1"
      by (subst dijkstra_loop.simps) simp
    moreover have "dom (map_of (st_distances s1)) \<subseteq> dom (map_of (st_distances s2))"
      using rel
      by (auto simp: state_restricts_def dq_restricts_def restrict_dist_def
          split: option.splits if_splits)
    moreover note dijkstra_loop_keys [of s2 g T2]
    ultimately show ?thesis by auto
  next
    case False
    have ne2: "st_pq s2 \<noteq> []"
      using False rel by (auto simp: state_restricts_def dq_restricts_def)
    have l1: "dijkstra_loop g T1 s1 = dijkstra_loop g T1 (dijkstra_step g T1 s1)"
      using False by (subst dijkstra_loop.simps) simp
    have l2: "dijkstra_loop g T2 s2 = dijkstra_loop g T2 (dijkstra_step g T2 s2)"
      using ne2 by (subst dijkstra_loop.simps) simp
    have "state_restricts T1 (dijkstra_step g T1 s1) (dijkstra_step g T2 s2)"
      using le rel False by (rule dijkstra_step_restricts)
    from "1.IH" [OF False this le] l1 l2 show ?thesis by simp
  qed
qed

lemma dijkstra_with_path_negative_bound:
  assumes "T < 0"
  shows "dijkstra_with_path g start T
           = [(start, (0, \<lparr>segments = [], total_time = 0, total_stops = 0\<rparr>))]"
proof -
  let ?d0 = "[(start, (0::rat, \<lparr>segments = [], total_time = 0, total_stops = 0\<rparr>))]"
  let ?s0 = "\<lparr>st_distances = ?d0, st_pq = [(0, start, [])], st_visited = {}\<rparr>"
  have step: "dijkstra_step g T ?s0 = \<lparr>st_distances = ?d0, st_pq = [], st_visited = {start}\<rparr>"
    using assms by (simp add: dijkstra_step_def heappop_def Let_def)
  have "dijkstra_loop g T ?s0 = dijkstra_loop g T (dijkstra_step g T ?s0)"
    by (subst dijkstra_loop.simps) simp
  also have "\<dots> = ?d0"
    unfolding step by (subst dijkstra_loop.simps) simp
  finally show ?thesis by (simp add: dijkstra_with_path_def)
qed

lemma dijkstra_with_path_keys_mono:
  assumes "T1 \<le> T2"
  shows "dom (map_of (dijkstra_with_path g start T1)) \<subseteq> dom (map_of (dijkstra_with_path g start T2))"
proof -
  let ?d0 = "[(start, (0::rat, \<lparr>segments = [], total_time = 0, total_stops = 0\<rparr>))]"
  let ?s0 = "\<lparr>st_distances = ?d0, st_pq = [(0, start, [])], st_visited = {}\<rparr>"
  show ?thesis
  proof (cases "0 \<le> T1")
    case True
    then have "state_restricts T1 ?s0 ?s0"
      by (simp add: state_restricts_def dq_restricts_def entry_within_def restrict_dist_def)
    with assms show ?thesis
      unfolding dijkstra_with_path_def by (rule dijkstra_loop_restricts)
  next
    case False
    then have "dom (map_of (dijkstra_with_path g start T1)) = {start}"
      by (simp add: dijkstra_with_path_negative_bound)
    moreover have "start \<in> dom (map_of (dijkstra_with_path g start T2))"
      using dijkstra_loop_keys [of ?s0 g T2] by (simp add: dijkstra_with_path_def)
    ultimately show ?thesis by simp
  qed
qed

section \<open>Properties of fetching and searching\<close>

lemma fetch_operator_data_known:
  "map_of OPERATORS k = Some c \<Longrightarrow> fetch_operator_data w k = Inr (degraded (own_fetches w c))"
  by (simp add: fetch_operator_data_def degraded_def own_fetches_def split: sum.splits)

lemma fetch_each_known:
  assumes "set ks \<subseteq> set (map fst OPERATORS)"
  shows "\<exists>res. fetch_each w ks acc = Inr res \<and>
           (\<forall>k. map_of res k =
              (if k \<in> set ks then map_option (\<lambda>c. degraded (own_fetches w c)) (map_of OPERATORS k)
               else map_of acc k))"
  using assms
proof (induction ks arbitrary: acc)
  case Nil
  then show ?case by simp
next
  case (Cons k ks)
  from Cons.prems have "k \<in> fst ` set OPERATORS" by simp
  then obtain c where c: "map_of OPERATORS k = Some c"
    by (metis domD dom_map_of_conv_image_fst)
  have one: "fetch_operator_data w k = Inr (degraded (own_fetches w c))"
    using c by (rule fetch_operator_data_known)
  from Cons.prems have "set ks \<subseteq> set (map fst OPERATORS)" by simp
  from Cons.IH [OF this, of "AList.update k (degraded (own_fetches w c)) acc"]
  obtain res where res: "fetch_each w ks (AList.update k (degraded (own_fetches w c)) acc) = Inr res"
    and look: "\<And>k'. map_of res k' =
        (if k' \<in> set ks then map_option (\<lambda>c. degraded (own_fetches w c)) (map_of OPERATORS k')
         else map_of (AList.update k (degraded (own_fetches w c)) acc) k')"
    by blast
  have "fetch_each w (k # ks) acc = Inr res"
    using one res by simp
  moreover have "\<forall>k'. map_of res k' =
        (if k' \<in> set (k # ks) then map_option (\<lambda>c. degraded (own_fetches w c)) (map_of OPERATORS k')
         else map_of acc k')"
    using look c by (simp add: update_conv')
  ultimately show ?case by blast
qed

lemma search_loop_raises:
  "(\<exists>e. search_loop lower t infos results = Inl e) \<longleftrightarrow>
   list_ex (\<lambda>kv. raises_on lower t (snd kv)) infos"
  by (induction lower t infos results rule: search_loop.induct)
     (auto simp: raises_on_def split: option.splits)

lemma search_loop_error:
  "search_loop lower t infos results = Inl e \<Longrightarrow> e = AttributeError"
  by (induction lower t infos results rule: search_loop.induct)
     (auto split: option.splits if_splits)

lemma search_station_raises:
  "search_station lower s q = Inl AttributeError \<longleftrightarrow>
   list_ex (\<lambda>kv. raises_on lower (lower q) (snd kv)) (station_info s)"
proof -
  have "search_station lower s q = Inl AttributeError \<longleftrightarrow>
        (\<exists>e. search_loop lower (lower q) (station_info s) [] = Inl e)"
    using search_loop_error [of lower "lower q" "station_info s" "[]"]
    by (auto simp: search_station_def split: sum.splits)
  then show ?thesis by (simp add: search_loop_raises)
qed

lemma search_station_total:
  assumes "\<forall>kv \<in> set (station_info s). info_title (snd kv) \<noteq> None \<and> info_title_en (snd kv) \<noteq> None"
  shows "\<exists>res. search_station lower s q = Inr res"
proof -
  have "\<not> list_ex (\<lambda>kv. raises_on lower (lower q) (snd kv)) (station_info s)"
    using assms by (auto simp: list_ex_iff raises_on_def split: option.splits)
  then have "\<not> (\<exists>e. search_loop lower (lower q) (station_info s) [] = Inl e)"
    by (simp add: search_loop_raises)
  then show ?thesis
    by (cases "search_loop lower (lower q) (station_info s) []")
       (auto simp: search_station_def)
qed

lemma build_single_station_info:
  "station_info (build_network so [row] [] init_optimizer) =
     [(sr_same_as row, \<lparr>info_title = sr_title row, info_title_en = sr_title_en row,
        info_railway = sr_railway row, info_latitude = sr_latitude row,
        info_longitude = sr_longitude row\<rparr>)]"
  by (simp add: build_network_def load_station_def init_optimizer_def Let_def)

lemma persisted_without_title_mapping:
  assumes "api_same_as r = Some k"
    and "api_station_title r = None \<or> api_station_title r = Some NotADict"
  shows "select_stations (insert_stations [r] []) =
     [\<lparr>sr_same_as = k, sr_title = api_dc_title r, sr_title_en = None,
       sr_railway = api_railway r, sr_latitude = api_lat r, sr_longitude = api_long r\<rparr>]"
  using assms
  by (auto simp: select_stations_def insert_stations_def insert_or_replace_def station_values_def
      List.map_filter_simps)

section \<open>A small network used to exercise the theorems\<close>

text \<open>A line \<open>A - B - C\<close> of one railway \<open>R\<close>, as \<^verbatim>\<open>_process_railway_order\<close> lays it out.\<close>

definition example_line :: network_graph where
  "example_line =
     [(''A'', [\<lparr>conn_to_station = ''B'', conn_travel_time = 5 / 2, conn_railway = ''R'',
                conn_num_stops = 1\<rparr>]),
      (''B'', [\<lparr>conn_to_station = ''A'', conn_travel_time = 5 / 2, conn_railway = ''R'',
                conn_num_stops = 1\<rparr>,
               \<lparr>conn_to_station = ''C'', conn_travel_time = 5 / 2, conn_railway = ''R'',
                conn_num_stops = 1\<rparr>]),
      (''C'', [\<lparr>conn_to_station = ''B'', conn_travel_time = 5 / 2, conn_railway = ''R'',
                conn_num_stops = 1\<rparr>])]"

definition example_route_AC :: Route where
  "example_route_AC =
     \<lparr>segments =
        [\<lparr>from_station = ''A'', to_station = ''B'', railway = ''R'', travel_time = 5 / 2,
          num_stops = 1\<rparr>,
         \<lparr>from_station = ''B'', to_station = ''C'', railway = ''R'', travel_time = 5 / 2,
          num_stops = 1\<rparr>],
      total_time = 5, total_stops = 2\<rparr>"

lemma example_line_from_A:
  "map_of (dijkstra_with_path example_line ''A'' 5) ''C'' = Some (5, example_route_AC)"
  by code_simp

lemma example_line_keys:
  "map fst (dijkstra_with_path example_line ''A'' (5 / 2)) = [''A'', ''B'']"
  "map fst (dijkstra_with_path example_line ''A'' 5) = [''A'', ''B'', ''C'']"
  by code_simp+

text \<open>A world in which the challenge endpoint is down and the production endpoint answers.\<close>

definition example_world :: "nat world" where
  "example_world =
     \<lparr>getenv = (\<lambda>k. Some ''key''),
      http_get = (\<lambda>endpoint operator_id api_key.
         if endpoint = ''https://api.odpt.org/api/v4/odpt:Station'' then Inr [1, 2]
         else if endpoint = ''https://api.odpt.org/api/v4/odpt:Railway'' then Inr [3]
         else Inl RequestException)\<rparr>"

text \<open>A station record without \<^verbatim>\<open>odpt:stationTitle\<close>, and ASCII lowering for the examples.\<close>

definition ascii_lower :: "string \<Rightarrow> string" where
  "ascii_lower s =
     map (\<lambda>c. if CHR ''A'' \<le> c \<and> c \<le> CHR ''Z'' then char_of (of_char c + (32::nat)) else c) s"

definition example_untitled :: api_station where
  "example_untitled =
     \<lparr>api_id = Some ''urn:1'', api_dc_title = Some ''Tokyo'', api_station_title = None,
      api_railway = Some ''R'', api_lat = None, api_long = None, api_same_as = Some ''S1''\<rparr>"

section \<open>The claims\<close>

text \<open>
  C3: for every start station and every non-negative bound \<open>T\<close>, every station in the
  mapping returned by \<^verbatim>\<open>_dijkstra_with_path(start, max_time=T)\<close> is paired with a best time
  that does not exceed \<open>T\<close>.
\<close>

theorem dijkstra_never_exceeds_bound:
  assumes "0 \<le> T"
    and "map_of (dijkstra_with_path g start T) v = Some (t, r)"
  shows "t \<le> T"
proof -
  have "dist_bounded T (dijkstra_with_path g start T)"
    using assms(1) by (rule dijkstra_with_path_bounded)
  then have "fst (t, r) \<le> T"
    unfolding dist_bounded_def using assms(2) by blast
  then show ?thesis by simp
qed

theorem dijkstra_never_exceeds_bound_witness:
  "(0::rat) \<le> 5 \<and>
   map_of (dijkstra_with_path example_line ''A'' 5) ''C'' = Some (5, example_route_AC) \<and>
   (5::rat) \<le> 5"
proof -
  have nonneg: "(0::rat) \<le> 5" by simp
  from dijkstra_never_exceeds_bound [OF nonneg example_line_from_A]
  show ?thesis using example_line_from_A by simp
qed

text \<open>
  C4: for every station in the mapping returned by \<^verbatim>\<open>_dijkstra_with_path(start, max_time)\<close>,
  the paired route is consistent with the paired best time: its segments form a contiguous
  path from the start station to that station (the start station itself is paired with the
  empty route), its total time is the sum of the travel times of its segments and equals
  the recorded best time, and its total stop count is the sum of the stop counts of its
  segments.
\<close>

theorem dijkstra_route_consistent:
  assumes "map_of (dijkstra_with_path g start T) v = Some (t, r)"
  shows "route_path start (segments r) v \<and>
         total_time r = sum_list (map travel_time (segments r)) \<and>
         total_time r = t \<and>
         total_stops r = sum_list (map num_stops (segments r))"
proof -
  have "dist_consistent start (dijkstra_with_path g start T)"
    by (rule dijkstra_with_path_consistent)
  then have "route_consistent start v (t, r)"
    unfolding dist_consistent_def using assms by blast
  then show ?thesis by (simp add: route_consistent_def)
qed

theorem dijkstra_route_consistent_witness:
  "map_of (dijkstra_with_path example_line ''A'' 5) ''C'' = Some (5, example_route_AC) \<and>
   route_path ''A'' (segments example_route_AC) ''C'' \<and>
   total_time example_route_AC = sum_list (map travel_time (segments example_route_AC)) \<and>
   total_time example_route_AC = 5 \<and>
   total_stops example_route_AC = sum_list (map num_stops (segments example_route_AC))"
  using dijkstra_route_consistent [OF example_line_from_A] example_line_from_A by simp

text \<open>
  C6: reachability is monotone in the time bound: for bounds \<open>T1 \<le> T2\<close> the set of
  stations returned by \<^verbatim>\<open>_dijkstra_with_path(start, max_time=T1)\<close> is a subset of the set
  returned with \<open>T2\<close> on the same graph.
\<close>

theorem dijkstra_reachable_mono:
  assumes "T1 \<le> T2"
  shows "set (map fst (dijkstra_with_path g start T1))
           \<subseteq> set (map fst (dijkstra_with_path g start T2))"
  using dijkstra_with_path_keys_mono [OF assms, of g start]
  by (simp add: dom_map_of_conv_image_fst)

theorem dijkstra_reachable_mono_witness:
  "(5 / 2 :: rat) \<le> 5 \<and>
   set (map fst (dijkstra_with_path example_line ''A'' (5 / 2))) = {''A'', ''B''} \<and>
   set (map fst (dijkstra_with_path example_line ''A'' 5)) = {''A'', ''B'', ''C''} \<and>
   set (map fst (dijkstra_with_path example_line ''A'' (5 / 2)))
     \<subseteq> set (map fst (dijkstra_with_path example_line ''A'' 5))"
proof -
  have le: "(5 / 2 :: rat) \<le> 5" by simp
  from dijkstra_reachable_mono [OF le, of example_line "''A''"]
  show ?thesis using le by (simp add: example_line_keys)
qed

text \<open>
  C9: for every list of known operator keys, \<^verbatim>\<open>fetch_all_operators\<close> returns a result with
  an entry for every requested operator. When one of the two fetches of an operator raises,
  the entry of that operator has empty station and railway lists; the entry of every other
  operator is exactly what its own two fetches produced.
\<close>

theorem fetch_all_operators_resilient:
  assumes "set ks \<subseteq> set (map fst OPERATORS)"
  shows "\<exists>res. fetch_all_operators w (Some ks) = Inr res \<and>
           (\<forall>k \<in> set ks. \<exists>c. map_of OPERATORS k = Some c \<and>
              map_of res k = Some (degraded (own_fetches w c)) \<and>
              ((\<exists>e. fst (own_fetches w c) = Inl e \<or> snd (own_fetches w c) = Inl e) \<longrightarrow>
                 map_of res k = Some \<lparr>stations = [], railways = []\<rparr>) \<and>
              (\<forall>s r. own_fetches w c = (Inr s, Inr r) \<longrightarrow>
                 map_of res k = Some \<lparr>stations = s, railways = r\<rparr>))"
proof -
  from fetch_each_known [OF assms, of w "[]"]
  obtain res where res: "fetch_each w ks [] = Inr res"
    and look: "\<And>k. map_of res k =
        (if k \<in> set ks then map_option (\<lambda>c. degraded (own_fetches w c)) (map_of OPERATORS k)
         else map_of [] k)"
    by blast
  have "\<forall>k \<in> set ks. \<exists>c. map_of OPERATORS k = Some c \<and>
              map_of res k = Some (degraded (own_fetches w c)) \<and>
              ((\<exists>e. fst (own_fetches w c) = Inl e \<or> snd (own_fetches w c) = Inl e) \<longrightarrow>
                 map_of res k = Some \<lparr>stations = [], railways = []\<rparr>) \<and>
              (\<forall>s r. own_fetches w c = (Inr s, Inr r) \<longrightarrow>
                 map_of res k = Some \<lparr>stations = s, railways = r\<rparr>)"
  proof
    fix k assume k: "k \<in> set ks"
    with assms have "k \<in> fst ` set OPERATORS" by auto
    then obtain c where c: "map_of OPERATORS k = Some c"
      by (metis domD dom_map_of_conv_image_fst)
    have m: "map_of res k = Some (degraded (own_fetches w c))"
      using look [of k] k c by simp
    have fail: "(\<exists>e. fst (own_fetches w c) = Inl e \<or> snd (own_fetches w c) = Inl e) \<longrightarrow>
                 degraded (own_fetches w c) = \<lparr>stations = [], railways = []\<rparr>"
      by (cases "own_fetches w c") (auto simp: degraded_def split: sum.splits)
    have ok: "\<forall>s r. own_fetches w c = (Inr s, Inr r) \<longrightarrow>
                 degraded (own_fetches w c) = \<lparr>stations = s, railways = r\<rparr>"
      by (simp add: degraded_def)
    show "\<exists>c. map_of OPERATORS k = Some c \<and>
              map_of res k = Some (degraded (own_fetches w c)) \<and>
              ((\<exists>e. fst (own_fetches w c) = Inl e \<or> snd (own_fetches w c) = Inl e) \<longrightarrow>
                 map_of res k = Some \<lparr>stations = [], railways = []\<rparr>) \<and>
              (\<forall>s r. own_fetches w c = (Inr s, Inr r) \<longrightarrow>
                 map_of res k = Some \<lparr>stations = s, railways = r\<rparr>)"
      using c m fail ok by auto
  qed
  with res show ?thesis by (auto simp: fetch_all_operators_def)
qed

theorem fetch_all_operators_resilient_witness:
  "set [''JR_EAST'', ''TOKYO_METRO''] \<subseteq> set (map fst OPERATORS) \<and>
   (\<exists>res. fetch_all_operators example_world (Some [''JR_EAST'', ''TOKYO_METRO'']) = Inr res \<and>
      map_of res ''JR_EAST'' = Some \<lparr>stations = [], railways = []\<rparr> \<and>
      map_of res ''TOKYO_METRO'' = Some \<lparr>stations = [1, 2], railways = [3]\<rparr>)"
proof -
  have sub: "set [''JR_EAST'', ''TOKYO_METRO''] \<subseteq> set (map fst OPERATORS)"
    by (simp add: OPERATORS_def)
  have eval: "fetch_all_operators example_world (Some [''JR_EAST'', ''TOKYO_METRO'']) =
      Inr [(''JR_EAST'', \<lparr>stations = [], railways = []\<rparr>),
           (''TOKYO_METRO'', \<lparr>stations = [1, 2], railways = [3]\<rparr>)]"
    by code_simp
  from fetch_all_operators_resilient [OF sub, of example_world]
  obtain res where "fetch_all_operators example_world (Some [''JR_EAST'', ''TOKYO_METRO'']) = Inr res"
    by blast
  with eval have "res = [(''JR_EAST'', \<lparr>stations = [], railways = []\<rparr>),
           (''TOKYO_METRO'', \<lparr>stations = [1, 2], railways = [3]\<rparr>)]"
    by simp
  with eval sub show ?thesis by simp
qed

text \<open>
  C10: \<^verbatim>\<open>search_station\<close> returns a result list whenever every loaded station has a non-null
  title and a non-null English title. A station record without a nested bilingual title
  mapping is persisted with a null English title, and on the station map loaded from it
  \<^verbatim>\<open>search_station\<close> raises instead of returning, for every search term that the title does
  not contain: the lowering is applied to the null value.
\<close>

theorem search_station_null_title:
  "(\<forall>s q. (\<forall>kv \<in> set (station_info s).
                 info_title (snd kv) \<noteq> None \<and> info_title_en (snd kv) \<noteq> None)
      \<longrightarrow> (\<exists>res. search_station lower s q = Inr res)) \<and>
   (\<forall>r k t q.
      api_same_as r = Some k \<and> api_dc_title r = Some t \<and>
      (api_station_title r = None \<or> api_station_title r = Some NotADict) \<and>
      \<not> is_substring (lower q) (lower t)
      \<longrightarrow> search_station lower
            (build_network so (select_stations (insert_stations [r] [])) [] init_optimizer) q
          = Inl AttributeError)"
proof (intro conjI allI impI)
  fix s :: optimizer and q
  assume "\<forall>kv \<in> set (station_info s).
            info_title (snd kv) \<noteq> None \<and> info_title_en (snd kv) \<noteq> None"
  then show "\<exists>res. search_station lower s q = Inr res"
    by (rule search_station_total)
next
  fix r :: api_station and k t q
  assume a: "api_same_as r = Some k \<and> api_dc_title r = Some t \<and>
      (api_station_title r = None \<or> api_station_title r = Some NotADict) \<and>
      \<not> is_substring (lower q) (lower t)"
  then have rows: "select_stations (insert_stations [r] []) =
     [\<lparr>sr_same_as = k, sr_title = api_dc_title r, sr_title_en = None,
       sr_railway = api_railway r, sr_latitude = api_lat r, sr_longitude = api_long r\<rparr>]"
    using persisted_without_title_mapping [of r k] by blast
  show "search_station lower
            (build_network so (select_stations (insert_stations [r] [])) [] init_optimizer) q
          = Inl AttributeError"
    using a unfolding rows search_station_raises build_single_station_info
    by (simp add: raises_on_def)
qed

theorem search_station_null_title_witness:
  "api_same_as example_untitled = Some ''S1'' \<and>
   api_dc_title example_untitled = Some ''Tokyo'' \<and>
   api_station_title example_untitled = None \<and>
   \<not> is_substring (ascii_lower ''Osaka'') (ascii_lower ''Tokyo'') \<and>
   search_station ascii_lower
     (build_network (\<lambda>xs. xs) (select_stations (insert_stations [example_untitled] [])) []
        init_optimizer) ''Osaka'' = Inl AttributeError \<and>
   (\<exists>res. search_station ascii_lower init_optimizer ''Osaka'' = Inr res)"
proof -
  have hyps: "api_same_as example_untitled = Some ''S1'' \<and>
      api_dc_title example_untitled = Some ''Tokyo'' \<and>
      (api_station_title example_untitled = None \<or>
       api_station_title example_untitled = Some NotADict) \<and>
      \<not> is_substring (ascii_lower ''Osaka'') (ascii_lower ''Tokyo'')"
    by (simp add: example_untitled_def ascii_lower_def)
  have none: "\<forall>kv \<in> set (station_info init_optimizer).
      info_title (snd kv) \<noteq> None \<and> info_title_en (snd kv) \<noteq> None"
    by (simp add: init_optimizer_def)
  note inst = search_station_null_title [of ascii_lower "\<lambda>xs. xs"]
  from inst none have "\<exists>res. search_station ascii_lower init_optimizer ''Osaka'' = Inr res"
    by blast
  moreover from inst hyps have "search_station ascii_lower
     (build_network (\<lambda>xs. xs) (select_stations (insert_stations [example_untitled] [])) []
        init_optimizer) ''Osaka'' = Inl AttributeError"
    by blast
  ultimately show ?thesis using hyps by (simp add: example_untitled_def)
qed

end
